theory Spec2Isabelle
  imports Main
begin

section \<open>Strings as Python sees them\<close>

text \<open>
  The crawler of \<^verbatim>\<open>src/thec.py\<close> works on Python strings. They are modelled as
  \<^typ>\<open>string\<close>, a character being read as a code point in the range U+0000..U+00FF, so
  that \<open>length\<close> counts what Python's \<^verbatim>\<open>len\<close> counts there.

  \<^verbatim>\<open>\s\<close> of \<^verbatim>\<open>re\<close> and \<^verbatim>\<open>str.strip()\<close> use the same whitespace test
  (\<^verbatim>\<open>str.isspace\<close>): tab, line feed, vertical tab, form feed, carriage return, the four
  separators 0x1C..0x1F, space, NEL (0x85) and the no-break space (0xA0).
\<close>

definition is_space :: "char \<Rightarrow> bool" where
  "is_space c = (c \<in> set [CHR 0x09, CHR 0x0A, CHR 0x0B, CHR 0x0C, CHR 0x0D,
                          CHR 0x1C, CHR 0x1D, CHR 0x1E, CHR 0x1F, CHR 0x20,
                          CHR 0x85, CHR 0xA0])"

text \<open>\<^verbatim>\<open>\d\<close>: the decimal digits; below U+0100 these are \<^verbatim>\<open>0\<close>..\<^verbatim>\<open>9\<close>.\<close>

definition is_digit :: "char \<Rightarrow> bool" where
  "is_digit c = (c \<in> set ''0123456789'')"

text \<open>
  \<^verbatim>\<open>str.lower()\<close>: \<^verbatim>\<open>A\<close>..\<^verbatim>\<open>Z\<close> and the Latin-1 capitals 0xC0..0xDE (without the
  multiplication sign 0xD7) move up by 32; every other character is kept.
\<close>

definition lower_char :: "char \<Rightarrow> char" where
  "lower_char c =
     (let n = (of_char c :: nat)
      in if (65 \<le> n \<and> n \<le> 90) \<or> (192 \<le> n \<and> n \<le> 222 \<and> n \<noteq> 215)
         then char_of (n + 32) else c)"

definition str_lower :: "string \<Rightarrow> string" where
  "str_lower s = map lower_char s"

definition endswith :: "string \<Rightarrow> string \<Rightarrow> bool" where
  "endswith s suffix = (length suffix \<le> length s \<and> drop (length s - length suffix) s = suffix)"

definition startswith :: "string \<Rightarrow> string \<Rightarrow> bool" where
  "startswith s pre = (take (length pre) s = pre)"

text \<open>\<^verbatim>\<open>sub in s\<close> on strings: \<open>sub\<close> occurs in \<open>s\<close> as a contiguous block.\<close>

fun contains :: "string \<Rightarrow> string \<Rightarrow> bool" where
  "contains [] sub = (sub = [])"
| "contains (c # cs) sub = (startswith (c # cs) sub \<or> contains cs sub)"

text \<open>\<^verbatim>\<open>str.strip()\<close> and \<^verbatim>\<open>str.rstrip(chars)\<close>.\<close>

definition str_strip :: "string \<Rightarrow> string" where
  "str_strip s = rev (dropWhile is_space (rev (dropWhile is_space s)))"

definition rstrip_chars :: "string \<Rightarrow> string \<Rightarrow> string" where
  "rstrip_chars chars s = rev (dropWhile (\<lambda>c. c \<in> set chars) (rev s))"

text \<open>\<^verbatim>\<open>str(n)\<close> for a non-negative counter: its decimal digits.\<close>

definition digit_char :: "nat \<Rightarrow> char" where
  "digit_char n = char_of (48 + n)"

fun str_nat :: "nat \<Rightarrow> string" where
  "str_nat n = (if n < 10 then [digit_char n] else str_nat (n div 10) @ [digit_char (n mod 10)])"

declare str_nat.simps [simp del]

section \<open>The library calls of \<^verbatim>\<open>sanitize_filename\<close>\<close>

text \<open>
  \<^verbatim>\<open>urllib.parse.unquote\<close>: scanning from the left, a percent sign followed by two
  hexadecimal digits is replaced by the character they encode; any other percent sign is
  kept. A string without a percent sign is returned as it is. (For escapes from
  \<^verbatim>\<open>%80\<close> on, Python goes on to read the decoded bytes as UTF-8; the model keeps the
  byte as one character.)
\<close>

definition hex_val :: "char \<Rightarrow> nat option" where
  "hex_val c = map_of (zip ''0123456789abcdefABCDEF''
                 [0, 1, 2, 3, 4, 5, 6, 7, 8, 9, 10, 11, 12, 13, 14, 15, 10, 11, 12, 13, 14, 15]) c"

fun unquote :: "string \<Rightarrow> string" where
  "unquote (c # h # l # rest) =
     (if c = CHR ''%'' then
        (case (hex_val h, hex_val l) of
           (Some a, Some b) \<Rightarrow> char_of (16 * a + b) # unquote rest
         | _ \<Rightarrow> c # unquote (h # l # rest))
      else c # unquote (h # l # rest))"
| "unquote s = s"

text \<open>\<^verbatim>\<open>os.path.basename\<close> (posixpath): what follows the last slash.\<close>

definition basename :: "string \<Rightarrow> string" where
  "basename p = rev (takeWhile (\<lambda>c. c \<noteq> CHR ''/'') (rev p))"

text \<open>
  \<^verbatim>\<open>re.sub(r'^\d+[\s.-]*', '', filename)\<close>: when the name starts with a digit, all
  leading digits go, and after them every whitespace, dot and hyphen that follows.
\<close>

definition numeric_sep :: "char \<Rightarrow> bool" where
  "numeric_sep c = (is_space c \<or> c = CHR ''.'' \<or> c = CHR ''-'')"

definition strip_numeric_prefix :: "string \<Rightarrow> string" where
  "strip_numeric_prefix s =
     (case s of
        [] \<Rightarrow> []
      | c # cs \<Rightarrow> if is_digit c then dropWhile numeric_sep (dropWhile is_digit s) else s)"

text \<open>\<^verbatim>\<open>re.sub(r'[<>:"/\\|?*]', '', filename)\<close>: nine characters are deleted.\<close>

definition illegal :: "char \<Rightarrow> bool" where
  "illegal c = (c \<in> set [CHR ''<'', CHR ''>'', CHR '':'', CHR 0x22, CHR ''/'', CHR 0x5C,
                         CHR ''|'', CHR ''?'', CHR ''*''])"

definition remove_illegal :: "string \<Rightarrow> string" where
  "remove_illegal s = filter (\<lambda>c. \<not> illegal c) s"

text \<open>\<^verbatim>\<open>re.sub(r'\s+', ' ', filename)\<close>: every maximal run of whitespace becomes one space.\<close>

function collapse_ws :: "string \<Rightarrow> string" where
  "collapse_ws [] = []"
| "collapse_ws (c # cs) =
     (if is_space c then CHR '' '' # collapse_ws (dropWhile is_space cs)
      else c # collapse_ws cs)"
  by pat_completeness auto
termination
  by (relation "measure length") (auto simp: length_dropWhile_le less_Suc_eq_le)

section \<open>The Filename Sanitizer\<close>

text \<open>\<^verbatim>\<open>sanitize_filename\<close>, lines 15 to 28, statement by statement.\<close>

definition sanitize_filename :: "string \<Rightarrow> string" where
  "sanitize_filename filename0 =
     (let filename1 = unquote filename0;
          filename2 = basename filename1;
          filename3 = strip_numeric_prefix filename2;
          filename4 = remove_illegal filename3;
          filename5 = take 200 (str_strip (collapse_ws filename4));
          filename6 = (if filename5 = [] \<or> filename5 = ''.mp3'' then ''audio.mp3'' else filename5)
      in if \<not> endswith (str_lower filename6) ''.mp3'' then filename6 @ ''.mp3'' else filename6)"

text \<open>The test \<^verbatim>\<open>^\d\<close> of line 19 on its own: the name starts with a digit.\<close>

definition starts_with_digit :: "string \<Rightarrow> bool" where
  "starts_with_digit s = (case s of [] \<Rightarrow> False | c # cs \<Rightarrow> is_digit c)"

section \<open>The external collaborators\<close>

text \<open>
  HTTP transport, HTML parsing, URL handling and the interpreter's set iteration order are
  not code of the repository. They are the fields of a \<open>world\<close>; every theorem on the
  crawler holds for all worlds. An answer \<open>None\<close> stands for a raised exception.

  A response of \<^verbatim>\<open>requests.get\<close>: status code, the \<^verbatim>\<open>content-type\<close> header if there is
  one, the body as bytes (\<^verbatim>\<open>.content\<close>) and as text (\<^verbatim>\<open>.text\<close>).
\<close>

record response =
  status_code :: nat
  content_type :: "string option"
  content :: string
  body_text :: string

text \<open>
  A response fetched with \<^verbatim>\<open>stream=True\<close>: the chunks that \<^verbatim>\<open>iter_content\<close> yields,
  and whether the connection fails after them (\<^verbatim>\<open>iter_content\<close> then raises).
\<close>

record streamed =
  stream_status :: nat
  chunks :: "string list"
  broken :: bool

text \<open>
  What the crawler asks of a parsed document: the \<^verbatim>\<open>audio\<close> elements in document order,
  each with its \<^verbatim>\<open>src\<close> attribute and the \<^verbatim>\<open>src\<close> attributes of its \<^verbatim>\<open>source\<close>
  descendants, and the \<^verbatim>\<open>href\<close> values of the anchors that have one.
\<close>

record audio_tag =
  audio_src :: "string option"
  source_srcs :: "string option list"

record soup =
  audio_tags :: "audio_tag list"
  anchor_hrefs :: "string list"

record parsed_url =
  scheme :: string
  netloc :: string
  path :: string

record world =
  requests_get :: "string \<Rightarrow> (string \<times> string) list \<Rightarrow> response option"
  requests_get_stream :: "string \<Rightarrow> (string \<times> string) list \<Rightarrow> streamed option"
  BeautifulSoup :: "string \<Rightarrow> soup option"
  urljoin :: "string \<Rightarrow> string \<Rightarrow> string option"
  urlparse :: "string \<Rightarrow> parsed_url option"
  findall_mp3 :: "string \<Rightarrow> string list"
  set_order :: "string list \<Rightarrow> string \<Rightarrow> nat"

text \<open>
  \<open>findall_mp3\<close> is \<^verbatim>\<open>re.findall\<close> with the pattern of line 87. \<open>set_order w xs\<close>
  ranks the elements of the set built from \<open>xs\<close>: \<^verbatim>\<open>list(set(xs))\<close> lists each element
  once, in an order that the interpreter's hashing decides and the program does not.
\<close>

definition list_of_set :: "world \<Rightarrow> string list \<Rightarrow> string list" where
  "list_of_set w xs = sort_key (set_order w xs) (remdups xs)"

text \<open>\<^verbatim>\<open>Response.raise_for_status\<close> raises for the client and server error codes.\<close>

definition raises_for_status :: "nat \<Rightarrow> bool" where
  "raises_for_status code = (400 \<le> code \<and> code < 600)"

definition user_agent :: "string \<times> string" where
  "user_agent = (''User-Agent'', ''Mozilla/5.0 (Windows NT 10.0; Win64; x64) AppleWebKit/537.36'')"

definition page_headers :: "(string \<times> string) list" where
  "page_headers = [user_agent]"

text \<open>Lines 135 to 141: \<^verbatim>\<open>if referer\<close> is false for \<^verbatim>\<open>None\<close> and for the empty string.\<close>

definition download_headers :: "string option \<Rightarrow> (string \<times> string) list" where
  "download_headers referer =
     [user_agent, (''Accept'', ''audio/mpeg, audio/*, text/html, */*'')] @
     (case referer of
        None \<Rightarrow> []
      | Some r \<Rightarrow> if r = [] then [] else [(''Referer'', r)])"

text \<open>
  A loop that appends to a list inside \<^verbatim>\<open>try\<close>: the parts are concatenated, and an
  exception in any step leaves no list at all.
\<close>

fun collect :: "('a \<Rightarrow> string list option) \<Rightarrow> 'a list \<Rightarrow> string list option" where
  "collect f [] = Some []"
| "collect f (x # xs) =
     (case f x of
        None \<Rightarrow> None
      | Some ys \<Rightarrow> (case collect f xs of None \<Rightarrow> None | Some zs \<Rightarrow> Some (ys @ zs)))"

section \<open>The Media-URL Extractor\<close>

text \<open>Lines 64 to 69 and 72 to 76: one \<^verbatim>\<open>src\<close> attribute.\<close>

definition scan_src :: "world \<Rightarrow> string \<Rightarrow> string option \<Rightarrow> string list option" where
  "scan_src w page_url src =
     (case src of
        None \<Rightarrow> Some []
      | Some s \<Rightarrow>
          if s = [] then Some []
          else (case urljoin w page_url s of
                  None \<Rightarrow> None
                | Some full_url \<Rightarrow>
                    if contains (str_lower s) ''.mp3'' then Some [full_url] else Some []))"

text \<open>Lines 63 to 76: one \<^verbatim>\<open>audio\<close> element and its \<^verbatim>\<open>source\<close> elements.\<close>

definition scan_audio :: "world \<Rightarrow> string \<Rightarrow> audio_tag \<Rightarrow> string list option" where
  "scan_audio w page_url audio =
     (case scan_src w page_url (audio_src audio) of
        None \<Rightarrow> None
      | Some ys \<Rightarrow>
          (case collect (scan_src w page_url) (source_srcs audio) of
             None \<Rightarrow> None
           | Some zs \<Rightarrow> Some (ys @ zs)))"

text \<open>Lines 79 to 83: one anchor.\<close>

definition scan_anchor :: "world \<Rightarrow> string \<Rightarrow> string \<Rightarrow> string list option" where
  "scan_anchor w page_url href =
     (if contains (str_lower href) ''.mp3''
      then (case urljoin w page_url href of None \<Rightarrow> None | Some full_url \<Rightarrow> Some [full_url])
      else Some [])"

text \<open>Line 91: the characters that \<^verbatim>\<open>rstrip\<close> takes off a match.\<close>

definition trailing_junk :: string where
  "trailing_junk = [CHR 0x22, CHR '','', CHR '';'', CHR '')'', CHR 0x27, CHR '']'']"

text \<open>The body of the \<^verbatim>\<open>try\<close> of \<^verbatim>\<open>find_real_mp3_on_page\<close>, lines 53 to 94.\<close>

definition find_real_mp3_on_page_try :: "world \<Rightarrow> string \<Rightarrow> string \<Rightarrow> string list option" where
  "find_real_mp3_on_page_try w page_url base_domain =
     (case requests_get w page_url page_headers of
        None \<Rightarrow> None
      | Some response \<Rightarrow>
          if raises_for_status (status_code response) then None
          else
            (case BeautifulSoup w (content response) of
               None \<Rightarrow> None
             | Some soup \<Rightarrow>
                 (case collect (scan_audio w page_url) (audio_tags soup) of
                    None \<Rightarrow> None
                  | Some from_audio \<Rightarrow>
                      (case collect (scan_anchor w page_url) (anchor_hrefs soup) of
                         None \<Rightarrow> None
                       | Some from_links \<Rightarrow>
                           Some (list_of_set w
                             (from_audio @ from_links @
                              map (rstrip_chars trailing_junk)
                                (findall_mp3 w (body_text response))))))))"

text \<open>Lines 96 and 97: \<^verbatim>\<open>except Exception: return []\<close>.\<close>

definition find_real_mp3_on_page :: "world \<Rightarrow> string \<Rightarrow> string \<Rightarrow> string list" where
  "find_real_mp3_on_page w page_url base_domain =
     (case find_real_mp3_on_page_try w page_url base_domain of None \<Rightarrow> [] | Some urls \<Rightarrow> urls)"

section \<open>The Link Discoverer\<close>

text \<open>Lines 115 to 122: one anchor.\<close>

definition scan_link :: "world \<Rightarrow> string \<Rightarrow> parsed_url \<Rightarrow> string \<Rightarrow> string list option" where
  "scan_link w page_url base_parsed href =
     (case urljoin w page_url href of
        None \<Rightarrow> None
      | Some full_url \<Rightarrow>
          (case urlparse w full_url of
             None \<Rightarrow> None
           | Some parsed \<Rightarrow>
               if netloc parsed = netloc base_parsed then Some [full_url] else Some []))"

text \<open>The body of the \<^verbatim>\<open>try\<close> of \<^verbatim>\<open>get_linked_pages\<close>, lines 104 to 124.\<close>

definition get_linked_pages_try :: "world \<Rightarrow> string \<Rightarrow> string \<Rightarrow> string list option" where
  "get_linked_pages_try w page_url base_domain =
     (case requests_get w page_url page_headers of
        None \<Rightarrow> None
      | Some response \<Rightarrow>
          if raises_for_status (status_code response) then None
          else
            (case BeautifulSoup w (content response) of
               None \<Rightarrow> None
             | Some soup \<Rightarrow>
                 (case urlparse w base_domain of
                    None \<Rightarrow> None
                  | Some base_parsed \<Rightarrow>
                      (case collect (scan_link w page_url base_parsed) (anchor_hrefs soup) of
                         None \<Rightarrow> None
                       | Some linked_pages \<Rightarrow> Some (list_of_set w linked_pages)))))"

definition get_linked_pages :: "world \<Rightarrow> string \<Rightarrow> string \<Rightarrow> string list" where
  "get_linked_pages w page_url base_domain =
     (case get_linked_pages_try w page_url base_domain of None \<Rightarrow> [] | Some urls \<Rightarrow> urls)"

section \<open>The output directory\<close>

text \<open>
  The output folder is flat: a list of entries, file name and content, with no name
  twice. \<^verbatim>\<open>os.path.exists\<close>, \<^verbatim>\<open>open(filepath, 'wb')\<close> followed by the writes, and
  \<^verbatim>\<open>os.remove\<close> act on it; the calls are logged as they happen. The file operations
  themselves are taken to succeed, and names are compared as on a POSIX file system.
\<close>

type_synonym directory = "(string \<times> string) list"

datatype fs_op = Write string string | Remove string

definition path_exists :: "directory \<Rightarrow> string \<Rightarrow> bool" where
  "path_exists d name = (name \<in> fst ` set d)"

definition write_file :: "directory \<Rightarrow> string \<Rightarrow> string \<Rightarrow> directory" where
  "write_file d name data = (name, data) # filter (\<lambda>e. fst e \<noteq> name) d"

definition remove_file :: "directory \<Rightarrow> string \<Rightarrow> directory" where
  "remove_file d name = filter (\<lambda>e. fst e \<noteq> name) d"

text \<open>
  \<^verbatim>\<open>os.path.splitext\<close> (genericpath): the extension starts at the last dot of the last
  path component, unless only dots stand before it in that component.
\<close>

definition rfind :: "char \<Rightarrow> string \<Rightarrow> int" where
  "rfind c s =
     (if c \<in> set s then int (length s) - 1 - int (length (takeWhile (\<lambda>x. x \<noteq> c) (rev s)))
      else - 1)"

definition splitext :: "string \<Rightarrow> string \<times> string" where
  "splitext p =
     (let sepIndex = rfind CHR ''/'' p;
          dotIndex = rfind CHR ''.'' p
      in if dotIndex > sepIndex \<and>
            list_ex (\<lambda>c. c \<noteq> CHR ''.'') (drop (nat (sepIndex + 1)) (take (nat dotIndex) p))
         then (take (nat dotIndex) p, drop (nat dotIndex) p)
         else (p, []))"

text \<open>Lines 178 and 216: \<^verbatim>\<open>f"{base}_{counter}{ext}"\<close>.\<close>

definition numbered :: "string \<Rightarrow> string \<Rightarrow> nat \<Rightarrow> string" where
  "numbered base ext counter = base @ ''_'' @ str_nat counter @ ext"

lemma digit_char_inj: "a < 10 \<Longrightarrow> b < 10 \<Longrightarrow> digit_char a = digit_char b \<Longrightarrow> a = b"
  by (simp add: digit_char_def)

lemma str_nat_not_Nil: "str_nat n \<noteq> []"
  by (subst str_nat.simps) simp

lemma str_nat_inj: "str_nat m = str_nat n \<Longrightarrow> m = n"
proof (induction m arbitrary: n rule: str_nat.induct)
  case (1 m)
  show ?case
  proof (cases "m < 10")
    case small_m: True
    show ?thesis
    proof (cases "n < 10")
      case True
      with small_m 1(2) show ?thesis
        by (simp add: str_nat.simps[of m] str_nat.simps[of n] digit_char_inj)
    next
      case False
      with small_m 1(2) show ?thesis
        using str_nat_not_Nil[of "n div 10"]
        by (auto simp: str_nat.simps[of m] str_nat.simps[of n])
    qed
  next
    case big_m: False
    show ?thesis
    proof (cases "n < 10")
      case True
      with big_m 1(2) show ?thesis
        using str_nat_not_Nil[of "m div 10"]
        by (auto simp: str_nat.simps[of m] str_nat.simps[of n])
    next
      case False
      with big_m 1(2) have "str_nat (m div 10) = str_nat (n div 10)"
        and "digit_char (m mod 10) = digit_char (n mod 10)"
        by (simp_all add: str_nat.simps[of m] str_nat.simps[of n])
      with big_m 1(1) have "m div 10 = n div 10" and "m mod 10 = n mod 10"
        by (auto intro: digit_char_inj)
      then show ?thesis
        by (metis div_mult_mod_eq)
    qed
  qed
qed

lemma numbered_inj: "numbered base ext i = numbered base ext j \<Longrightarrow> i = j"
  by (simp add: numbered_def str_nat_inj)

lemma finite_numbered_taken: "finite {k. numbered base ext k \<in> fst ` set d}"
proof -
  have "inj (numbered base ext)"
    by (rule injI) (rule numbered_inj)
  then have "finite (numbered base ext -` (fst ` set d))"
    by (intro finite_vimageI) simp_all
  then show ?thesis by (simp add: vimage_def)
qed

text \<open>
  Lines 174 to 180 and 212 to 218, the same code twice. The loop runs while the current
  name is taken; each round tries the next number.
\<close>

function next_free :: "directory \<Rightarrow> string \<Rightarrow> string \<Rightarrow> string \<Rightarrow> nat \<Rightarrow> string" where
  "next_free d base ext filename counter =
     (if path_exists d filename
      then next_free d base ext (numbered base ext counter) (counter + 1)
      else filename)"
  by pat_completeness auto
termination
proof (relation "measure (\<lambda>(d, base, ext, filename, counter).
    2 * card {k. counter \<le> k \<and> numbered base ext k \<in> fst ` set d}
    + (if path_exists d filename then 1 else 0))")
  show "wf (measure (\<lambda>(d, base, ext, filename, counter).
    2 * card {k. counter \<le> k \<and> numbered base ext k \<in> fst ` set d}
    + (if path_exists d filename then 1 else 0)))"
    by simp
next
  fix d :: directory and base ext filename :: string and counter :: nat
  assume taken: "path_exists d filename"
  let ?S = "\<lambda>c. {k. c \<le> k \<and> numbered base ext k \<in> fst ` set d}"
  have fin: "finite (?S counter)"
    using finite_numbered_taken[of base ext d] by (rule rev_finite_subset) auto
  show "((d, base, ext, numbered base ext counter, counter + 1), (d, base, ext, filename, counter))
    \<in> measure (\<lambda>(d, base, ext, filename, counter).
        2 * card {k. counter \<le> k \<and> numbered base ext k \<in> fst ` set d}
        + (if path_exists d filename then 1 else 0))"
  proof (cases "path_exists d (numbered base ext counter)")
    case True
    then have mem: "counter \<in> ?S counter" by (simp add: path_exists_def)
    have eq: "?S (counter + 1) = ?S counter - {counter}" by auto
    have "card (?S counter - {counter}) < card (?S counter)"
      using fin mem by (rule card_Diff1_less)
    then have "card (?S (counter + 1)) < card (?S counter)"
      by (simp only: eq)
    with True taken show ?thesis by simp
  next
    case False
    then have "?S (counter + 1) = ?S counter"
      by (auto simp: path_exists_def le_eq_less_or_eq Suc_le_eq)
    with False taken show ?thesis by simp
  qed
qed

declare next_free.simps [simp del]

definition handle_duplicates :: "directory \<Rightarrow> string \<Rightarrow> string" where
  "handle_duplicates d filename =
     (if path_exists d filename
      then (case splitext filename of (base, ext) \<Rightarrow> next_free d base ext filename 1)
      else filename)"

section \<open>The Resolver/Downloader\<close>

text \<open>\<^verbatim>\<open>bytes.lower()\<close> changes the ASCII capitals only.\<close>

definition bytes_lower :: "string \<Rightarrow> string" where
  "bytes_lower s =
     map (\<lambda>c. let n = (of_char c :: nat) in if 65 \<le> n \<and> n \<le> 90 then char_of (n + 32) else c) s"

text \<open>Lines 149 and 152: the test that takes a response for an HTML page.\<close>

definition is_html :: "response \<Rightarrow> bool" where
  "is_html response =
     (let content_type = str_lower (case content_type response of None \<Rightarrow> [] | Some v \<Rightarrow> v)
      in contains content_type ''text/html''
         \<or> startswith (bytes_lower (take 15 (content response))) ''<!doctype''
         \<or> contains (bytes_lower (take 100 (content response))) ''<html'')"

text \<open>
  What one call of \<^verbatim>\<open>download_mp3\<close> leaves behind: the value it returns, the
  directory, and the file operations it performed.
\<close>

record outcome =
  ok :: bool
  dir :: directory
  trace :: "fs_op list"

text \<open>
  Lines 171 to 198 and 209 to 232: pick the name, write the data, check the size. In
  the streamed branch the data are the chunks received; when the connection breaks,
  the exception leaves the loop after the file was opened and written so far.
\<close>

definition save :: "directory \<Rightarrow> string \<Rightarrow> string \<Rightarrow> bool \<Rightarrow> outcome" where
  "save d filename0 data interrupted =
     (let filename = handle_duplicates d filename0;
          written = write_file d filename data
      in if interrupted then \<lparr>ok = False, dir = written, trace = [Write filename data]\<rparr>
         else if length data < 1000
         then \<lparr>ok = False, dir = remove_file written filename,
               trace = [Write filename data, Remove filename]\<rparr>
         else \<lparr>ok = True, dir = written, trace = [Write filename data]\<rparr>)"

text \<open>
  \<^verbatim>\<open>download_mp3\<close>, lines 129 to 236. Every exception ends in the handler of line 234,
  which returns \<^verbatim>\<open>False\<close>; before the file is opened nothing has been done to the
  directory. The directory takes the place of the path \<^verbatim>\<open>output_dir\<close>.
\<close>

definition download_mp3 :: "world \<Rightarrow> string \<Rightarrow> directory \<Rightarrow> string option \<Rightarrow> outcome" where
  "download_mp3 w mp3_url d referer =
     (let failed = \<lparr>ok = False, dir = d, trace = []\<rparr>;
          headers = download_headers referer
      in case urlparse w mp3_url of
           None \<Rightarrow> failed
         | Some parsed \<Rightarrow>
       (case requests_get w mp3_url headers of
           None \<Rightarrow> failed
         | Some response \<Rightarrow>
       if raises_for_status (status_code response) then failed
       else if is_html response then
         (case BeautifulSoup w (content response) of
            None \<Rightarrow> failed
          | Some soup \<Rightarrow>
         (case audio_tags soup of
            [] \<Rightarrow> failed
          | audio_tag # others \<Rightarrow>
         (case audio_src audio_tag of
            None \<Rightarrow> failed
          | Some src \<Rightarrow>
         if src = [] then failed
         else
         (case urljoin w mp3_url src of
            None \<Rightarrow> failed
          | Some real_mp3_url \<Rightarrow>
         (case requests_get_stream w real_mp3_url headers of
            None \<Rightarrow> failed
          | Some mp3_response \<Rightarrow>
         if raises_for_status (stream_status mp3_response) then failed
         else
         (case urlparse w real_mp3_url of
            None \<Rightarrow> failed
          | Some real_parsed \<Rightarrow>
              save d (sanitize_filename (basename (path real_parsed)))
                (concat (chunks mp3_response)) (broken mp3_response)))))))
       else save d (sanitize_filename (basename (path parsed))) (content response) False))"

section \<open>The Crawl Orchestrator\<close>

text \<open>
  The state of a run: the set of URLs seen, the counter, the output directory, and two
  logs that the program does not keep but its behaviour is stated with: the URLs handed to
  \<^verbatim>\<open>download_mp3\<close> and the linked pages searched, both in order.
\<close>

record run =
  all_mp3s :: "string set"
  downloaded_count :: nat
  out_dir :: directory
  download_calls :: "string list"
  pages_checked :: "string list"

text \<open>Lines 268 to 272 and 294 to 298: the body of the loop over the URLs of a page.\<close>

definition process_mp3 :: "world \<Rightarrow> string \<Rightarrow> run \<Rightarrow> string \<Rightarrow> run" where
  "process_mp3 w referer r mp3 =
     (if mp3 \<notin> all_mp3s r then
        (let out = download_mp3 w mp3 (out_dir r) (Some referer)
         in r\<lparr>all_mp3s := insert mp3 (all_mp3s r),
              downloaded_count := (if ok out then downloaded_count r + 1 else downloaded_count r),
              out_dir := dir out,
              download_calls := download_calls r @ [mp3]\<rparr>)
      else r)"

text \<open>Lines 287 to 302: one linked page.\<close>

definition process_page :: "world \<Rightarrow> string \<Rightarrow> run \<Rightarrow> string \<Rightarrow> run" where
  "process_page w base_domain r page_url =
     foldl (process_mp3 w page_url)
       (r\<lparr>pages_checked := pages_checked r @ [page_url]\<rparr>)
       (find_real_mp3_on_page w page_url base_domain)"

text \<open>Lines 245 to 248: the start URL as typed, then normalised.\<close>

definition start_url_of :: "string \<Rightarrow> string" where
  "start_url_of typed =
     (let start_url = str_strip typed
      in if \<not> startswith start_url ''http'' then ''https://'' @ start_url else start_url)"

text \<open>
  \<^verbatim>\<open>main\<close>, lines 238 to 310, once the output folder exists; \<open>d\<close> is what the folder
  holds then. Line 257 is outside every \<^verbatim>\<open>try\<close>: when \<^verbatim>\<open>urlparse\<close> raises there, the
  run ends with that exception (\<open>None\<close>).
\<close>

definition main :: "world \<Rightarrow> string \<Rightarrow> directory \<Rightarrow> run option" where
  "main w typed d =
     (let start_url = start_url_of typed
      in case urlparse w start_url of
           None \<Rightarrow> None
         | Some parsed \<Rightarrow>
             (let base_domain = scheme parsed @ ''://'' @ netloc parsed;
                  r0 = \<lparr>all_mp3s = {}, downloaded_count = 0, out_dir = d,
                        download_calls = [], pages_checked = []\<rparr>;
                  r1 = foldl (process_mp3 w start_url) r0
                         (find_real_mp3_on_page w start_url base_domain);
                  linked_pages = get_linked_pages w start_url base_domain
              in Some (foldl (process_page w base_domain) r1 (take 100 linked_pages))))"

section \<open>Example worlds\<close>

text \<open>
  \<^verbatim>\<open>urlparse\<close> on the URLs of the examples: they have the form
  \<^verbatim>\<open>scheme://netloc/path\<close> with a lower-case scheme and no parameters, query or fragment.
\<close>

definition example_urlparse :: "string \<Rightarrow> parsed_url option" where
  "example_urlparse url =
     (let s = takeWhile (\<lambda>c. c \<noteq> CHR '':'') url;
          rest = drop (length s + 3) url;
          n = takeWhile (\<lambda>c. c \<noteq> CHR ''/'') rest
      in Some \<lparr>scheme = s, netloc = n, path = drop (length n) rest\<rparr>)"

text \<open>
  \<^verbatim>\<open>urljoin\<close> on the references of the examples: a path that starts with a slash
  replaces the path of the base, and an absolute URL is returned as it is.
\<close>

definition example_urljoin :: "string \<Rightarrow> string \<Rightarrow> string option" where
  "example_urljoin base url =
     (if startswith url ''/''
      then (case example_urlparse base of
              None \<Rightarrow> None
            | Some b \<Rightarrow> Some (scheme b @ ''://'' @ netloc b @ url))
      else Some url)"

text \<open>
  An example world is given by its pages, its streamed resources, the parse of each page,
  the matches of the pattern of line 87 in each page, and the set order.
\<close>

definition example_world ::
  "(string \<Rightarrow> response option) \<Rightarrow> (string \<Rightarrow> streamed option) \<Rightarrow> (string \<Rightarrow> soup option) \<Rightarrow>
   (string \<Rightarrow> string list) \<Rightarrow> (string list \<Rightarrow> string \<Rightarrow> nat) \<Rightarrow> world" where
  "example_world pages streams parser matcher order =
     \<lparr>requests_get = (\<lambda>url headers. pages url),
      requests_get_stream = (\<lambda>url headers. streams url),
      BeautifulSoup = parser,
      urljoin = example_urljoin,
      urlparse = example_urlparse,
      findall_mp3 = matcher,
      set_order = order\<rparr>"

text \<open>Responses: an HTML page, an audio file of \<open>n\<close> bytes, the same resource streamed.\<close>

definition html_page :: "string \<Rightarrow> response" where
  "html_page html = \<lparr>status_code = 200, content_type = Some ''text/html; charset=utf-8'',
     content = html, body_text = html\<rparr>"

definition audio_file :: "nat \<Rightarrow> nat \<Rightarrow> response" where
  "audio_file code n = \<lparr>status_code = code, content_type = Some ''audio/mpeg'',
     content = replicate n CHR ''x'', body_text = replicate n CHR ''x''\<rparr>"

definition audio_stream :: "nat \<Rightarrow> nat \<Rightarrow> streamed" where
  "audio_stream code n = \<lparr>stream_status = code,
     chunks = [replicate (n - 400) CHR ''x'', [], replicate (min n 400) CHR ''x''], broken = False\<rparr>"

text \<open>A wrapper page: one \<^verbatim>\<open>audio\<close> element, whose \<^verbatim>\<open>src\<close> is the stream.\<close>

definition player_html :: "string \<Rightarrow> string" where
  "player_html src = ''<html><audio src='' @ src @ ''></audio></html>''"

definition player_soup :: "string \<Rightarrow> soup" where
  "player_soup src = \<lparr>audio_tags = [\<lparr>audio_src = Some src, source_srcs = []\<rparr>], anchor_hrefs = []\<rparr>"

text \<open>
  The first example: the seed page \<^verbatim>\<open>https://site.example/album\<close> embeds a player for
  \<^verbatim>\<open>/stream/track1.mp3\<close> and links to \<^verbatim>\<open>track2\<close>, a wrapper page for a stream on
  another host that also links back to the first track. Further pages of the site: three
  wrappers that are a player and nothing else (\<^verbatim>\<open>track5\<close> with a good stream,
  \<^verbatim>\<open>track3\<close> and \<^verbatim>\<open>track4\<close> with a short and a missing one), a page with links to another scheme and
  another host, a page without a player, four files that are all called \<^verbatim>\<open>x.mp3\<close>, a
  file served with status 300 and one with status 404.
\<close>

definition album_html :: string where
  "album_html = ''<html><audio src=/stream/track1.mp3></audio><a href=https://site.example/track2>2</a></html>''"

definition track2_html :: string where
  "track2_html = ''<html><audio src=https://cdn.other.example/t2-real.mp3></audio><a href=/stream/track1.mp3>1</a></html>''"

definition mixed_html :: string where
  "mixed_html = ''<html><a href=http://site.example/x>x</a><a href=https://other.example/y>y</a></html>''"

definition empty_html :: string where
  "empty_html = ''<html><p>no player here</p></html>''"

definition album_pages :: "string \<Rightarrow> response option" where
  "album_pages url =
     (if url = ''https://site.example/album'' then Some (html_page album_html)
      else if url = ''https://site.example/track2'' then Some (html_page track2_html)
      else if url = ''https://site.example/track3''
        then Some (html_page (player_html ''https://cdn.other.example/short.mp3''))
      else if url = ''https://site.example/track4''
        then Some (html_page (player_html ''https://cdn.other.example/missing.mp3''))
      else if url = ''https://site.example/track5''
        then Some (html_page (player_html ''https://cdn.other.example/t5-real.mp3''))
      else if url = ''https://site.example/mixed'' then Some (html_page mixed_html)
      else if url = ''https://site.example/empty'' then Some (html_page empty_html)
      else if url = ''https://site.example/stream/track1.mp3'' then Some (audio_file 200 1000)
      else if url = ''https://cdn.other.example/t2-real.mp3'' then Some (audio_file 200 1200)
      else if url = ''https://site.example/a/x.mp3'' then Some (audio_file 200 1000)
      else if url = ''https://site.example/b/x.mp3'' then Some (audio_file 200 1001)
      else if url = ''https://site.example/c/x.mp3'' then Some (audio_file 200 1002)
      else if url = ''https://site.example/d/x.mp3'' then Some (audio_file 200 999)
      else if url = ''https://site.example/choices.mp3'' then Some (audio_file 300 1000)
      else if url = ''https://site.example/gone.mp3'' then Some (audio_file 404 0)
      else None)"

definition album_streams :: "string \<Rightarrow> streamed option" where
  "album_streams url =
     (if url = ''https://cdn.other.example/t2-real.mp3'' then Some (audio_stream 200 1200)
      else if url = ''https://cdn.other.example/t5-real.mp3'' then Some (audio_stream 200 1200)
      else if url = ''https://cdn.other.example/short.mp3'' then Some (audio_stream 200 999)
      else if url = ''https://cdn.other.example/missing.mp3'' then Some (audio_stream 404 0)
      else None)"

definition album_parser :: "string \<Rightarrow> soup option" where
  "album_parser html =
     (if html = album_html
      then Some \<lparr>audio_tags = [\<lparr>audio_src = Some ''/stream/track1.mp3'', source_srcs = []\<rparr>],
                 anchor_hrefs = [''https://site.example/track2'']\<rparr>
      else if html = track2_html
      then Some \<lparr>audio_tags = [\<lparr>audio_src = Some ''https://cdn.other.example/t2-real.mp3'',
                                 source_srcs = []\<rparr>],
                 anchor_hrefs = [''/stream/track1.mp3'']\<rparr>
      else if html = player_html ''https://cdn.other.example/short.mp3''
      then Some (player_soup ''https://cdn.other.example/short.mp3'')
      else if html = player_html ''https://cdn.other.example/missing.mp3''
      then Some (player_soup ''https://cdn.other.example/missing.mp3'')
      else if html = player_html ''https://cdn.other.example/t5-real.mp3''
      then Some (player_soup ''https://cdn.other.example/t5-real.mp3'')
      else if html = mixed_html
      then Some \<lparr>audio_tags = [],
                 anchor_hrefs = [''http://site.example/x'', ''https://other.example/y'']\<rparr>
      else Some \<lparr>audio_tags = [], anchor_hrefs = []\<rparr>)"

definition album_matcher :: "string \<Rightarrow> string list" where
  "album_matcher text =
     (if text = track2_html then [''https://cdn.other.example/t2-real.mp3'']
      else if text = player_html ''https://cdn.other.example/short.mp3''
      then [''https://cdn.other.example/short.mp3'']
      else if text = player_html ''https://cdn.other.example/missing.mp3''
      then [''https://cdn.other.example/missing.mp3'']
      else if text = player_html ''https://cdn.other.example/t5-real.mp3''
      then [''https://cdn.other.example/t5-real.mp3'']
      else [])"

definition album_world :: world where
  "album_world = example_world album_pages album_streams album_parser album_matcher (\<lambda>xs. length)"

text \<open>The state of line 258 and 259, with an empty output folder.\<close>

definition fresh_run :: run where
  "fresh_run = \<lparr>all_mp3s = {}, downloaded_count = 0, out_dir = [], download_calls = [],
     pages_checked = []\<rparr>"

text \<open>
  The second example: a seed page with 101 links to its own site, in a world whose set
  order puts the last of them first.
\<close>

definition crowded_links :: "string list" where
  "crowded_links = map (\<lambda>i. ''https://site.example/page'' @ str_nat i) [0..<101]"

definition crowded_html :: string where
  "crowded_html = ''<html>'' @ concat (map (\<lambda>u. ''<a href='' @ u @ ''>p</a>'') crowded_links) @ ''</html>''"

definition crowded_world :: world where
  "crowded_world = example_world
     (\<lambda>url. if url = ''https://site.example/index'' then Some (html_page crowded_html) else None)
     (\<lambda>url. None)
     (\<lambda>html. if html = crowded_html then Some \<lparr>audio_tags = [], anchor_hrefs = crowded_links\<rparr>
              else Some \<lparr>audio_tags = [], anchor_hrefs = []\<rparr>)
     (\<lambda>text. [])
     (\<lambda>xs u. if u = ''https://site.example/page100'' then 0 else 1)"

text \<open>The links of the second example, by number.\<close>

definition crowded_link :: "nat \<Rightarrow> string" where
  "crowded_link i = ''https://site.example/page'' @ str_nat i"

section \<open>Notions for the proofs\<close>

text \<open>
  A call of \<^verbatim>\<open>download_mp3\<close> either fails and leaves the directory as it was, or puts
  one entry with a name not used so far in front of it.
\<close>

definition adds_at_most_one :: "directory \<Rightarrow> outcome \<Rightarrow> bool" where
  "adds_at_most_one d out =
     ((\<not> ok out \<and> dir out = d) \<or>
      (\<exists>name data. \<not> path_exists d name \<and> dir out = (name, data) # d))"

text \<open>The log of download calls lists the set of seen URLs, each once.\<close>

definition calls_match_seen :: "run \<Rightarrow> bool" where
  "calls_match_seen r = (distinct (download_calls r) \<and> set (download_calls r) = all_mp3s r)"

section \<open>Properties of the Filename Sanitizer\<close>

text \<open>Lines 23 to 26 as one step, applied to the truncated name.\<close>

definition ensure_mp3 :: "string \<Rightarrow> string" where
  "ensure_mp3 u =
     (let v = (if u = [] \<or> u = ''.mp3'' then ''audio.mp3'' else u)
      in if \<not> endswith (str_lower v) ''.mp3'' then v @ ''.mp3'' else v)"

text \<open>
  What \<^verbatim>\<open>re.sub(r'\s+', ' ', _)\<close> leaves: the only whitespace is the space character, and
  never two in a row.
\<close>

fun single_spaced :: "string \<Rightarrow> bool" where
  "single_spaced [] = True"
| "single_spaced [c] = (is_space c \<longrightarrow> c = CHR '' '')"
| "single_spaced (a # b # cs) =
     ((is_space a \<longrightarrow> a = CHR '' '' \<and> \<not> is_space b) \<and> single_spaced (b # cs))"

lemma sanitize_ensure_mp3:
  "sanitize_filename s =
     ensure_mp3 (take 200 (str_strip (collapse_ws (remove_illegal
       (strip_numeric_prefix (basename (unquote s)))))))"
  by (simp add: sanitize_filename_def ensure_mp3_def Let_def)

lemma set_collapse_ws: "set (collapse_ws s) \<subseteq> insert CHR '' '' (set s)"
proof (induction s rule: collapse_ws.induct)
  case 1
  show ?case by simp
next
  case (2 c cs)
  have "set (dropWhile is_space cs) \<subseteq> set cs"
    by (rule set_dropWhileD[THEN subsetI])
  with 2 show ?case by auto
qed

lemma set_str_strip: "set (str_strip s) \<subseteq> set s"
  by (auto simp: str_strip_def dest!: set_dropWhileD)

lemma legal_stem:
  "\<forall>c\<in>set (take 200 (str_strip (collapse_ws (remove_illegal s)))). \<not> illegal c"
proof
  fix c assume "c \<in> set (take 200 (str_strip (collapse_ws (remove_illegal s))))"
  then have "c \<in> set (str_strip (collapse_ws (remove_illegal s)))"
    by (rule in_set_takeD)
  then have "c \<in> set (collapse_ws (remove_illegal s))"
    using set_str_strip by blast
  then have "c = CHR '' '' \<or> c \<in> set (remove_illegal s)"
    using set_collapse_ws by blast
  then show "\<not> illegal c"
    by (auto simp: remove_illegal_def illegal_def)
qed

lemma endswith_append_mp3: "endswith (str_lower (s @ ''.mp3'')) ''.mp3''"
  by (simp add: endswith_def str_lower_def lower_char_def)

lemma ensure_mp3_cases:
  "ensure_mp3 u = ''audio.mp3'' \<and> (u = [] \<or> u = ''.mp3'') \<or>
   ensure_mp3 u = u \<and> u \<noteq> [] \<and> u \<noteq> ''.mp3'' \<and> endswith (str_lower u) ''.mp3'' \<or>
   ensure_mp3 u = u @ ''.mp3'' \<and> u \<noteq> [] \<and> \<not> endswith (str_lower u) ''.mp3''"
  by (auto simp: ensure_mp3_def Let_def endswith_def str_lower_def lower_char_def)

lemma ensure_mp3_props:
  assumes "length u \<le> 200" "\<forall>c\<in>set u. \<not> illegal c"
  shows "ensure_mp3 u \<noteq> [] \<and> length (ensure_mp3 u) \<le> 204 \<and>
     (\<forall>c\<in>set (ensure_mp3 u). \<not> illegal c) \<and> endswith (str_lower (ensure_mp3 u)) ''.mp3''"
  using ensure_mp3_cases[of u] assms
  by (elim disjE)
    (auto simp: illegal_def endswith_append_mp3 endswith_def str_lower_def lower_char_def)

lemma sanitize_props:
  "sanitize_filename s \<noteq> [] \<and> length (sanitize_filename s) \<le> 204 \<and>
   (\<forall>c\<in>set (sanitize_filename s). \<not> illegal c) \<and>
   endswith (str_lower (sanitize_filename s)) ''.mp3''"
  unfolding sanitize_ensure_mp3
  by (rule ensure_mp3_props) (simp_all add: legal_stem)

text \<open>
  C3, as amended. For every input string the name returned by \<^verbatim>\<open>sanitize_filename\<close> is
  non-empty, has at most 204 characters (the name is cut to 200 characters before the
  extension is appended), contains none of the characters \<^verbatim>\<open><>:"/\|?*\<close>, and its
  lower-cased form ends with \<^verbatim>\<open>.mp3\<close>.
\<close>

theorem sanitize_filename_output:
  "sanitize_filename s \<noteq> [] \<and> length (sanitize_filename s) \<le> 204 \<and>
   (\<forall>c\<in>set (sanitize_filename s). \<not> illegal c) \<and>
   endswith (str_lower (sanitize_filename s)) ''.mp3''"
  by (rule sanitize_props)

theorem sanitize_filename_output_witness:
  "sanitize_filename ''a/b/03 - My  Song.MP3'' \<noteq> [] \<and>
   length (sanitize_filename ''a/b/03 - My  Song.MP3'') \<le> 204 \<and>
   list_all (\<lambda>c. \<not> illegal c) (sanitize_filename ''a/b/03 - My  Song.MP3'') \<and>
   endswith (str_lower (sanitize_filename ''a/b/03 - My  Song.MP3'')) ''.mp3''"
  using sanitize_filename_output[of "''a/b/03 - My  Song.MP3''"]
  by (simp add: list_all_iff)

text \<open>
  C3 as stated fails on the bound: a name of 200 letters \<^verbatim>\<open>a\<close> has no extension, so
  \<^verbatim>\<open>.mp3\<close> is appended after the cut and the result has 204 characters.
\<close>

theorem sanitize_filename_length_counterexample:
  "\<not> length (sanitize_filename (replicate 200 CHR ''a'')) \<le> 200"
  by code_simp

lemma dropWhile_space_hd: "dropWhile is_space cs = x # xs \<Longrightarrow> \<not> is_space x"
  using hd_dropWhile[of is_space cs] by auto

lemma single_spaced_collapse_ws: "single_spaced (collapse_ws s)"
proof (induction s rule: collapse_ws.induct)
  case 1
  show ?case by simp
next
  case (2 c cs)
  show ?case
  proof (cases "is_space c")
    case True
    define r where "r = dropWhile is_space cs"
    from 2 True have ih: "single_spaced (collapse_ws r)" by (simp add: r_def)
    have "single_spaced (CHR '' '' # collapse_ws r)"
    proof (cases r)
      case Nil
      then show ?thesis by simp
    next
      case (Cons x xs)
      then have "\<not> is_space x" unfolding r_def by (rule dropWhile_space_hd)
      with ih Cons show ?thesis by simp
    qed
    with True show ?thesis by (simp add: r_def)
  next
    case False
    with 2 have ih: "single_spaced (collapse_ws cs)" by simp
    with False show ?thesis by (cases "collapse_ws cs") simp_all
  qed
qed

lemma single_spaced_tl: "single_spaced (c # cs) \<Longrightarrow> single_spaced cs"
  by (cases cs) simp_all

lemma single_spaced_drop: "single_spaced s \<Longrightarrow> single_spaced (drop n s)"
proof (induction n arbitrary: s)
  case 0
  then show ?case by simp
next
  case (Suc n)
  then show ?case by (cases s) (auto dest: single_spaced_tl)
qed

lemma single_spaced_take: "single_spaced s \<Longrightarrow> single_spaced (take n s)"
proof (induction s arbitrary: n rule: single_spaced.induct)
  case 1
  then show ?case by simp
next
  case (2 c)
  then show ?case by (cases n) simp_all
next
  case (3 a b cs)
  show ?case
  proof (cases n)
    case 0
    then show ?thesis by simp
  next
    case (Suc m)
    from 3 have "single_spaced (take m (b # cs))" by simp
    with 3 Suc show ?thesis by (cases m) auto
  qed
qed

lemma single_spaced_append:
  "single_spaced xs \<Longrightarrow> single_spaced (y # ys) \<Longrightarrow> \<not> is_space y \<Longrightarrow> single_spaced (xs @ y # ys)"
  by (induction xs rule: single_spaced.induct) auto

lemma rstrip_is_take: "\<exists>k. rev (dropWhile P (rev s)) = take k s"
proof -
  have "dropWhile P (rev s) = drop (length (takeWhile P (rev s))) (rev s)"
    by (rule dropWhile_eq_drop)
  then have "rev (dropWhile P (rev s)) = take (length s - length (takeWhile P (rev s))) s"
    by (simp add: rev_drop)
  then show ?thesis ..
qed

lemma single_spaced_strip: "single_spaced s \<Longrightarrow> single_spaced (str_strip s)"
proof -
  assume s: "single_spaced s"
  obtain k where k: "str_strip s = take k (dropWhile is_space s)"
    unfolding str_strip_def using rstrip_is_take by blast
  have "single_spaced (dropWhile is_space s)"
    using s by (simp add: dropWhile_eq_drop single_spaced_drop)
  then show ?thesis by (simp add: k single_spaced_take)
qed

lemma collapse_ws_id: "single_spaced s \<Longrightarrow> collapse_ws s = s"
proof (induction s rule: single_spaced.induct)
  case 1
  then show ?case by simp
next
  case (2 c)
  then show ?case by simp
next
  case (3 a b cs)
  then show ?case by auto
qed

lemma str_strip_id:
  assumes "s \<noteq> []" "\<not> is_space (hd s)" "\<not> is_space (last s)"
  shows "str_strip s = s"
proof -
  have l: "dropWhile is_space s = s"
    using assms by (cases s) auto
  obtain x xs where r: "rev s = x # xs"
    using assms(1) by (cases "rev s") auto
  have "hd (rev s) = last s"
    using assms(1) by (simp add: hd_rev)
  with r have "x = last s" by simp
  with assms(3) have "dropWhile is_space (x # xs) = x # xs" by simp
  with l r show ?thesis by (simp add: str_strip_def)
qed

lemma hd_str_strip: "str_strip s \<noteq> [] \<Longrightarrow> \<not> is_space (hd (str_strip s))"
proof -
  assume ne: "str_strip s \<noteq> []"
  obtain k where k: "str_strip s = take k (dropWhile is_space s)"
    unfolding str_strip_def using rstrip_is_take by blast
  with ne have "dropWhile is_space s \<noteq> []" "k \<noteq> 0" by auto
  then have "hd (str_strip s) = hd (dropWhile is_space s)"
    by (simp add: k hd_take)
  moreover have "\<not> is_space (hd (dropWhile is_space s))"
    using \<open>dropWhile is_space s \<noteq> []\<close> by (rule hd_dropWhile)
  ultimately show ?thesis by simp
qed


lemma lower_char_3: "lower_char c = CHR ''3'' \<Longrightarrow> c = CHR ''3''"
  by (auto simp: lower_char_def Let_def char_of_eq_iff take_bit_eq_mod split: if_splits)

lemma endswith_last:
  assumes "endswith (str_lower t) ''.mp3''"
  shows "t \<noteq> [] \<and> last t = CHR ''3''"
proof -
  from assms have len: "4 \<le> length t"
    and d: "drop (length t - 4) (map lower_char t) = ''.mp3''"
    by (simp_all add: endswith_def str_lower_def eval_nat_numeral)
  from len have ne: "t \<noteq> []" by auto
  have "last (map lower_char t) = last (drop (length t - 4) (map lower_char t))"
    using len by (simp add: last_drop)
  with d have "last (map lower_char t) = CHR ''3''" by simp
  with ne have "lower_char (last t) = CHR ''3''" by (simp add: last_map)
  with ne show ?thesis by (simp add: lower_char_3)
qed

lemma basename_id: "CHR ''/'' \<notin> set p \<Longrightarrow> basename p = p"
proof -
  assume "CHR ''/'' \<notin> set p"
  then have tw: "takeWhile (\<lambda>c. c \<noteq> CHR ''/'') (rev p) = rev p"
    by (intro takeWhile_eq_all_conv[THEN iffD2]) auto
  show ?thesis unfolding basename_def tw by simp
qed

lemma strip_numeric_prefix_id: "\<not> starts_with_digit s \<Longrightarrow> strip_numeric_prefix s = s"
  by (cases s) (simp_all add: starts_with_digit_def strip_numeric_prefix_def)

lemma remove_illegal_id: "\<forall>c\<in>set s. \<not> illegal c \<Longrightarrow> remove_illegal s = s"
  by (simp add: remove_illegal_def)

lemma sanitize_fixed_point:
  assumes unq: "unquote t = t"
    and dig: "\<not> starts_with_digit t"
    and len: "length t \<le> 200"
    and legal: "\<forall>c\<in>set t. \<not> illegal c"
    and ss: "single_spaced t"
    and hd: "\<not> is_space (hd t)"
    and ext: "endswith (str_lower t) ''.mp3''"
    and bare: "t \<noteq> ''.mp3''"
  shows "sanitize_filename t = t"
proof -
  from ext have ne: "t \<noteq> []" and l3: "last t = CHR ''3''"
    using endswith_last by blast+
  have "\<not> illegal CHR ''/'' \<Longrightarrow> False" by (simp add: illegal_def)
  with legal have "CHR ''/'' \<notin> set t" by blast
  then have b: "basename t = t" by (rule basename_id)
  have "\<not> is_space (last t)" by (simp add: l3 is_space_def)
  with ne hd have st: "str_strip t = t" by (simp add: str_strip_id)
  have "ensure_mp3 t = t"
    using ne bare ext by (simp add: ensure_mp3_def)
  then show ?thesis
    unfolding sanitize_ensure_mp3
    by (simp add: unq b strip_numeric_prefix_id[OF dig] remove_illegal_id[OF legal]
        collapse_ws_id[OF ss] st len)
qed

lemma stem_props:
  fixes x :: string
  defines "u \<equiv> take 200 (str_strip (collapse_ws x))"
  shows "single_spaced u" and "u \<noteq> [] \<Longrightarrow> \<not> is_space (hd u)"
proof -
  show "single_spaced u"
    unfolding u_def
    by (intro single_spaced_take single_spaced_strip single_spaced_collapse_ws)
  assume "u \<noteq> []"
  then have "str_strip (collapse_ws x) \<noteq> []" and "hd u = hd (str_strip (collapse_ws x))"
    unfolding u_def by (auto simp: hd_take)
  then show "\<not> is_space (hd u)" by (simp add: hd_str_strip)
qed

text \<open>
  C8, as amended. For every input string \<open>s\<close>, if the name \<^verbatim>\<open>sanitize_filename(s)\<close>
  is left unchanged by percent-decoding, does not start with a digit and has at most 200
  characters, then sanitizing it again returns it unchanged.
\<close>

theorem sanitize_filename_idempotent:
  assumes "unquote (sanitize_filename s) = sanitize_filename s"
    and "\<not> starts_with_digit (sanitize_filename s)"
    and "length (sanitize_filename s) \<le> 200"
  shows "sanitize_filename (sanitize_filename s) = sanitize_filename s"
proof -
  define x where "x = remove_illegal (strip_numeric_prefix (basename (unquote s)))"
  define u where "u = take 200 (str_strip (collapse_ws x))"
  define t where "t = sanitize_filename s"
  have t: "t = ensure_mp3 u"
    by (simp add: t_def u_def x_def sanitize_ensure_mp3)
  have ss_u: "single_spaced u" and hd_u: "u \<noteq> [] \<Longrightarrow> \<not> is_space (hd u)"
    unfolding u_def by (rule stem_props)+
  have legal: "\<forall>c\<in>set t. \<not> illegal c" and ext: "endswith (str_lower t) ''.mp3''"
    unfolding t_def using sanitize_props[of s] by blast+
  consider (fallback) "ensure_mp3 u = ''audio.mp3''"
    | (kept) "ensure_mp3 u = u" "u \<noteq> []" "u \<noteq> ''.mp3''"
    | (extended) "ensure_mp3 u = u @ ''.mp3''" "u \<noteq> []"
    using ensure_mp3_cases[of u] by blast
  then have shape: "single_spaced t \<and> \<not> is_space (hd t) \<and> t \<noteq> ''.mp3''"
  proof cases
    case fallback
    then show ?thesis by (simp add: t is_space_def)
  next
    case kept
    then show ?thesis using ss_u hd_u by (simp add: t)
  next
    case extended
    have "single_spaced (u @ ''.mp3'')"
      by (rule single_spaced_append[OF ss_u]) (simp_all add: is_space_def)
    with extended hd_u show ?thesis by (simp add: t)
  qed
  have "sanitize_filename t = t"
    using assms shape legal ext
    by (intro sanitize_fixed_point) (simp_all add: t_def)
  then show ?thesis by (simp add: t_def)
qed

theorem sanitize_filename_idempotent_witness:
  "sanitize_filename (sanitize_filename ''a/b/03 - My  Song.MP3'') =
   sanitize_filename ''a/b/03 - My  Song.MP3''"
proof -
  have 1: "sanitize_filename ''a/b/03 - My  Song.MP3'' = ''My Song.MP3''" by code_simp
  have 2: "unquote ''My Song.MP3'' = ''My Song.MP3''" by code_simp
  have 3: "\<not> starts_with_digit ''My Song.MP3''" by code_simp
  show ?thesis
    using sanitize_filename_idempotent[of "''a/b/03 - My  Song.MP3''"] 2 3 unfolding 1 by simp
qed

text \<open>
  C8 as stated fails in three ways. \<^verbatim>\<open>1 2.mp3\<close> becomes \<^verbatim>\<open>2.mp3\<close>, which starts with
  a digit again and becomes \<^verbatim>\<open>mp3.mp3\<close>. \<^verbatim>\<open>%2541.mp3\<close> decodes to \<^verbatim>\<open>%41.mp3\<close>, which
  decodes to \<^verbatim>\<open>A.mp3\<close>. A name of 197 letters gets its extension after the cut, is 201
  characters long, and is cut inside the extension the second time.
\<close>

theorem sanitize_filename_idempotent_counterexample:
  "sanitize_filename (sanitize_filename ''1 2.mp3'') \<noteq> sanitize_filename ''1 2.mp3'' \<and>
   sanitize_filename (sanitize_filename ''%2541.mp3'') \<noteq> sanitize_filename ''%2541.mp3'' \<and>
   sanitize_filename (sanitize_filename (replicate 197 CHR ''a'')) \<noteq>
     sanitize_filename (replicate 197 CHR ''a'')"
  by code_simp

section \<open>Properties of the Resolver/Downloader\<close>

lemma next_free_fresh: "\<not> path_exists d (next_free d base ext filename counter)"
proof (induction d base ext filename counter rule: next_free.induct)
  case (1 d base ext filename counter)
  then show ?case by (subst next_free.simps) simp
qed

lemma handle_duplicates_fresh: "\<not> path_exists d (handle_duplicates d filename)"
  by (simp add: handle_duplicates_def next_free_fresh split: prod.split)

lemma filter_fresh: "\<not> path_exists d name \<Longrightarrow> filter (\<lambda>e. fst e \<noteq> name) d = d"
  by (auto simp: path_exists_def filter_id_conv)

lemma write_file_fresh: "\<not> path_exists d name \<Longrightarrow> write_file d name data = (name, data) # d"
  by (simp add: write_file_def filter_fresh)

lemma remove_written: "\<not> path_exists d name \<Longrightarrow> remove_file (write_file d name data) name = d"
  by (simp add: write_file_def remove_file_def filter_fresh)

lemma save_undersized:
  "length data < 1000 \<Longrightarrow>
   save d filename data False =
     \<lparr>ok = False, dir = d,
      trace = [Write (handle_duplicates d filename) data, Remove (handle_duplicates d filename)]\<rparr>"
  by (simp add: save_def Let_def remove_written handle_duplicates_fresh)

lemma save_complete:
  "1000 \<le> length data \<Longrightarrow>
   save d filename data False =
     \<lparr>ok = True, dir = (handle_duplicates d filename, data) # d,
      trace = [Write (handle_duplicates d filename) data]\<rparr>"
  by (simp add: save_def Let_def write_file_fresh handle_duplicates_fresh)

lemma save_interrupted:
  "save d filename data True =
     \<lparr>ok = False, dir = (handle_duplicates d filename, data) # d,
      trace = [Write (handle_duplicates d filename) data]\<rparr>"
  by (simp add: save_def Let_def write_file_fresh handle_duplicates_fresh)

lemma save_adds: "adds_at_most_one d (save d filename data interrupted)"
proof (cases interrupted)
  case True
  then show ?thesis
    using handle_duplicates_fresh[of d filename]
    by (auto simp: adds_at_most_one_def save_interrupted)
next
  case False
  then show ?thesis
    using handle_duplicates_fresh[of d filename]
    by (cases "length data < 1000")
      (auto simp: adds_at_most_one_def save_undersized save_complete)
qed

lemma download_mp3_adds: "adds_at_most_one d (download_mp3 w mp3_url d referer)"
proof -
  have failed: "adds_at_most_one d \<lparr>ok = False, dir = d, trace = []\<rparr>"
    by (simp add: adds_at_most_one_def)
  show ?thesis
    unfolding download_mp3_def Let_def
    by (simp add: failed save_adds split: option.split list.split)
qed




text \<open>
  C5. If the fetch succeeds and fewer than 1000 bytes were written to the output file,
  on the direct path (line 226) as on the wrapper path with a complete stream (line 192),
  then \<^verbatim>\<open>download_mp3\<close> returns \<^verbatim>\<open>False\<close>, the file it wrote is deleted again, and
  the output directory is what it was before the call: the file written for the candidate
  is not in it.
\<close>

theorem download_mp3_undersized:
  assumes "urlparse w mp3_url = Some parsed"
    and "requests_get w mp3_url (download_headers referer) = Some response"
    and "\<not> raises_for_status (status_code response)"
    and "(\<not> is_html response \<and> length (content response) < 1000) \<or>
         (is_html response \<and>
          (\<exists>soup audio_tag others src real_mp3_url mp3_response real_parsed.
             BeautifulSoup w (content response) = Some soup \<and>
             audio_tags soup = audio_tag # others \<and> audio_src audio_tag = Some src \<and> src \<noteq> [] \<and>
             urljoin w mp3_url src = Some real_mp3_url \<and>
             requests_get_stream w real_mp3_url (download_headers referer) = Some mp3_response \<and>
             \<not> raises_for_status (stream_status mp3_response) \<and>
             urlparse w real_mp3_url = Some real_parsed \<and>
             \<not> broken mp3_response \<and> length (concat (chunks mp3_response)) < 1000))"
  shows "\<not> ok (download_mp3 w mp3_url d referer) \<and>
         dir (download_mp3 w mp3_url d referer) = d \<and>
         (\<exists>name data. trace (download_mp3 w mp3_url d referer) = [Write name data, Remove name] \<and>
            \<not> path_exists (dir (download_mp3 w mp3_url d referer)) name)"
  using assms by (auto simp: download_mp3_def Let_def save_undersized handle_duplicates_fresh)

text \<open>
  The file \<^verbatim>\<open>d/x.mp3\<close> of the first example has 999 bytes.
\<close>

theorem download_mp3_undersized_witness:
  "\<not> ok (download_mp3 album_world ''https://site.example/d/x.mp3'' [] None) \<and>
   dir (download_mp3 album_world ''https://site.example/d/x.mp3'' [] None) = [] \<and>
   trace (download_mp3 album_world ''https://site.example/d/x.mp3'' [] None) =
     [Write ''x.mp3'' (replicate 999 CHR ''x''), Remove ''x.mp3'']"
proof -
  have h1: "urlparse album_world ''https://site.example/d/x.mp3'' =
      Some \<lparr>scheme = ''https'', netloc = ''site.example'', path = ''/d/x.mp3''\<rparr>"
    by code_simp
  have h2: "requests_get album_world ''https://site.example/d/x.mp3'' (download_headers None) =
      Some (audio_file 200 999)"
    by code_simp
  have h3: "\<not> raises_for_status (status_code (audio_file 200 999))" by code_simp
  have "\<not> is_html (audio_file 200 999) \<and> length (content (audio_file 200 999)) < 1000"
    by code_simp
  then have h4: "(\<not> is_html (audio_file 200 999) \<and> length (content (audio_file 200 999)) < 1000) \<or>
         (is_html (audio_file 200 999) \<and>
          (\<exists>soup audio_tag others src real_mp3_url mp3_response real_parsed.
             BeautifulSoup album_world (content (audio_file 200 999)) = Some soup \<and>
             audio_tags soup = audio_tag # others \<and> audio_src audio_tag = Some src \<and> src \<noteq> [] \<and>
             urljoin album_world ''https://site.example/d/x.mp3'' src = Some real_mp3_url \<and>
             requests_get_stream album_world real_mp3_url (download_headers None) = Some mp3_response \<and>
             \<not> raises_for_status (stream_status mp3_response) \<and>
             urlparse album_world real_mp3_url = Some real_parsed \<and>
             \<not> broken mp3_response \<and> length (concat (chunks mp3_response)) < 1000))"
    by (rule disjI1)
  have t: "trace (download_mp3 album_world ''https://site.example/d/x.mp3'' [] None) =
     [Write ''x.mp3'' (replicate 999 CHR ''x''), Remove ''x.mp3'']"
    by code_simp
  from download_mp3_undersized[OF h1 h2 h3 h4, of "[]"] t show ?thesis by blast
qed

text \<open>
  C10, as amended. Whenever \<^verbatim>\<open>download_mp3\<close> fails before any write begins, because
  the first request raises, or its response has a status from 400 to 599 (the codes for
  which \<^verbatim>\<open>raise_for_status\<close> raises), or the response is taken for an HTML page in which
  no \<^verbatim>\<open>audio\<close> element is found or the first one has no \<^verbatim>\<open>src\<close> or an empty one, it
  returns \<^verbatim>\<open>False\<close>, performs no file operation and leaves the output directory
  exactly as it was.
\<close>

theorem download_mp3_early_failure:
  assumes "requests_get w mp3_url (download_headers referer) = None \<or>
     (\<exists>response. requests_get w mp3_url (download_headers referer) = Some response \<and>
        (raises_for_status (status_code response) \<or>
         (is_html response \<and>
          (\<exists>soup. BeautifulSoup w (content response) = Some soup \<and>
             (audio_tags soup = [] \<or>
              (\<exists>audio_tag others. audio_tags soup = audio_tag # others \<and>
                 (audio_src audio_tag = None \<or> audio_src audio_tag = Some [])))))))"
  shows "download_mp3 w mp3_url d referer = \<lparr>ok = False, dir = d, trace = []\<rparr>"
  using assms by (auto simp: download_mp3_def Let_def split: option.split)

text \<open>
  A file answered with status 404 and a page without a player, in the first example.
\<close>

theorem download_mp3_early_failure_witness:
  "download_mp3 album_world ''https://site.example/gone.mp3'' [] None =
     \<lparr>ok = False, dir = [], trace = []\<rparr> \<and>
   download_mp3 album_world ''https://site.example/empty'' [] None =
     \<lparr>ok = False, dir = [], trace = []\<rparr>"
proof -
  have gone: "requests_get album_world ''https://site.example/gone.mp3'' (download_headers None) =
      Some (audio_file 404 0)"
    by code_simp
  have "raises_for_status (status_code (audio_file 404 0))" by code_simp
  with gone have h1: "requests_get album_world ''https://site.example/gone.mp3'' (download_headers None) = None \<or>
     (\<exists>response. requests_get album_world ''https://site.example/gone.mp3'' (download_headers None) = Some response \<and>
        (raises_for_status (status_code response) \<or>
         (is_html response \<and>
          (\<exists>soup. BeautifulSoup album_world (content response) = Some soup \<and>
             (audio_tags soup = [] \<or>
              (\<exists>audio_tag others. audio_tags soup = audio_tag # others \<and>
                 (audio_src audio_tag = None \<or> audio_src audio_tag = Some [])))))))"
    by blast
  have empty: "requests_get album_world ''https://site.example/empty'' (download_headers None) =
      Some (html_page empty_html)"
    by code_simp
  have html: "is_html (html_page empty_html)" by code_simp
  have soup: "BeautifulSoup album_world (content (html_page empty_html)) =
      Some \<lparr>audio_tags = [], anchor_hrefs = []\<rparr>"
    by code_simp
  have "audio_tags \<lparr>audio_tags = [], anchor_hrefs = []\<rparr> = []" by simp
  with empty html soup
  have h2: "requests_get album_world ''https://site.example/empty'' (download_headers None) = None \<or>
     (\<exists>response. requests_get album_world ''https://site.example/empty'' (download_headers None) = Some response \<and>
        (raises_for_status (status_code response) \<or>
         (is_html response \<and>
          (\<exists>soup. BeautifulSoup album_world (content response) = Some soup \<and>
             (audio_tags soup = [] \<or>
              (\<exists>audio_tag others. audio_tags soup = audio_tag # others \<and>
                 (audio_src audio_tag = None \<or> audio_src audio_tag = Some [])))))))"
    by blast
  from download_mp3_early_failure[OF h1, of "[]"] download_mp3_early_failure[OF h2, of "[]"] show ?thesis by simp
qed

text \<open>
  C10 as stated fails for a status that is neither 2xx nor an error code: the response
  with status 300 passes \<^verbatim>\<open>raise_for_status\<close>, and its body of 1000 bytes is saved.
\<close>

theorem download_mp3_early_failure_counterexample:
  "map_option status_code (requests_get album_world ''https://site.example/choices.mp3''
      (download_headers None)) = Some 300 \<and>
   ok (download_mp3 album_world ''https://site.example/choices.mp3'' [] None) \<and>
   map fst (dir (download_mp3 album_world ''https://site.example/choices.mp3'' [] None)) =
     [''choices.mp3'']"
  by code_simp

lemma process_mp3_step:
  "\<exists>new. out_dir (process_mp3 w referer r mp3) = new @ out_dir r \<and> length new \<le> 1 \<and>
     downloaded_count (process_mp3 w referer r mp3) \<le> downloaded_count r + length new \<and>
     distinct (map fst new) \<and> (\<forall>n\<in>set (map fst new). \<not> path_exists (out_dir r) n)"
proof (cases "mp3 \<in> all_mp3s r")
  case True
  then show ?thesis by (simp add: process_mp3_def)
next
  case False
  let ?out = "download_mp3 w mp3 (out_dir r) (Some referer)"
  have "adds_at_most_one (out_dir r) ?out" by (rule download_mp3_adds)
  then consider "\<not> ok ?out" "dir ?out = out_dir r"
    | name data where "\<not> path_exists (out_dir r) name" "dir ?out = (name, data) # out_dir r"
    unfolding adds_at_most_one_def by blast
  then show ?thesis
  proof cases
    case 1
    with False show ?thesis by (simp add: process_mp3_def Let_def)
  next
    case 2
    with False show ?thesis
      by (intro exI[of _ "[(name, data)]"]) (simp add: process_mp3_def Let_def)
  qed
qed

lemma path_exists_append: "path_exists (new @ d) n = (n \<in> set (map fst new) \<or> path_exists d n)"
  by (auto simp: path_exists_def)

lemma process_all_steps:
  "\<exists>new. out_dir (foldl (process_mp3 w referer) r urls) = new @ out_dir r \<and>
     length new \<le> length urls \<and>
     downloaded_count (foldl (process_mp3 w referer) r urls) \<le> downloaded_count r + length new \<and>
     distinct (map fst new) \<and> (\<forall>n\<in>set (map fst new). \<not> path_exists (out_dir r) n)"
proof (induction urls arbitrary: r)
  case Nil
  show ?case by simp
next
  case (Cons u us)
  let ?r1 = "process_mp3 w referer r u"
  obtain new1 where 1: "out_dir ?r1 = new1 @ out_dir r" "length new1 \<le> 1"
    "downloaded_count ?r1 \<le> downloaded_count r + length new1"
    "distinct (map fst new1)" "\<forall>n\<in>set (map fst new1). \<not> path_exists (out_dir r) n"
    using process_mp3_step[of w referer r u] by blast
  obtain new2 where 2: "out_dir (foldl (process_mp3 w referer) ?r1 us) = new2 @ out_dir ?r1"
    "length new2 \<le> length us"
    "downloaded_count (foldl (process_mp3 w referer) ?r1 us) \<le> downloaded_count ?r1 + length new2"
    "distinct (map fst new2)" "\<forall>n\<in>set (map fst new2). \<not> path_exists (out_dir ?r1) n"
    using Cons.IH[of ?r1] by blast
  show ?case
  proof (intro exI[of _ "new2 @ new1"] conjI)
    show "out_dir (foldl (process_mp3 w referer) r (u # us)) = (new2 @ new1) @ out_dir r"
      using 1(1) 2(1) by simp
    show "length (new2 @ new1) \<le> length (u # us)"
      using 1(2) 2(2) by simp
    show "downloaded_count (foldl (process_mp3 w referer) r (u # us))
        \<le> downloaded_count r + length (new2 @ new1)"
      using 1(3) 2(3) by simp
    show "distinct (map fst (new2 @ new1))"
      using 1(4) 2(4) 2(5) by (auto simp: 1(1) path_exists_append)
    show "\<forall>n\<in>set (map fst (new2 @ new1)). \<not> path_exists (out_dir r) n"
      using 1(5) 2(5) by (auto simp: 1(1) path_exists_append)
  qed
qed

text \<open>
  C7, as amended. If each of N candidate URLs handed to the loop of the orchestrator is
  downloaded with success (the counter grows by N), then the output directory consists of
  N new entries in front of the entries it had: their names are pairwise distinct and none
  of them existed before, and every earlier file is there with the content it had. This
  holds whether or not the candidates resolve to the same base filename, and from any
  state of the run, so no file is overwritten by a later download.
\<close>

theorem downloads_never_overwrite:
  assumes "downloaded_count (foldl (process_mp3 w referer) r urls) = downloaded_count r + length urls"
  shows "\<exists>new. out_dir (foldl (process_mp3 w referer) r urls) = new @ out_dir r \<and>
     length new = length urls \<and> distinct (map fst new) \<and>
     (\<forall>n\<in>set (map fst new). \<not> path_exists (out_dir r) n)"
proof -
  obtain new where new: "out_dir (foldl (process_mp3 w referer) r urls) = new @ out_dir r"
    "length new \<le> length urls"
    "downloaded_count (foldl (process_mp3 w referer) r urls) \<le> downloaded_count r + length new"
    "distinct (map fst new)" "\<forall>n\<in>set (map fst new). \<not> path_exists (out_dir r) n"
    using process_all_steps[of w referer r urls] by blast
  from assms new(2,3) have "length new = length urls" by simp
  with new show ?thesis by blast
qed

text \<open>
  Three candidates of the first example that all resolve to \<^verbatim>\<open>x.mp3\<close>.
\<close>

theorem downloads_never_overwrite_witness:
  "(\<exists>new. out_dir (foldl (process_mp3 album_world ''https://site.example/album'') fresh_run
       [''https://site.example/a/x.mp3'', ''https://site.example/b/x.mp3'',
        ''https://site.example/c/x.mp3'']) = new @ out_dir fresh_run \<and>
     length new = 3 \<and> distinct (map fst new) \<and>
     (\<forall>n\<in>set (map fst new). \<not> path_exists (out_dir fresh_run) n)) \<and>
   map fst (out_dir (foldl (process_mp3 album_world ''https://site.example/album'') fresh_run
       [''https://site.example/a/x.mp3'', ''https://site.example/b/x.mp3'',
        ''https://site.example/c/x.mp3''])) = [''x_2.mp3'', ''x_1.mp3'', ''x.mp3'']"
proof -
  let ?urls = "[''https://site.example/a/x.mp3'', ''https://site.example/b/x.mp3'',
        ''https://site.example/c/x.mp3'']"
  have h: "downloaded_count (foldl (process_mp3 album_world ''https://site.example/album'') fresh_run ?urls)
      = downloaded_count fresh_run + length ?urls"
    by code_simp
  have names: "map fst (out_dir (foldl (process_mp3 album_world ''https://site.example/album'')
      fresh_run ?urls)) = [''x_2.mp3'', ''x_1.mp3'', ''x.mp3'']"
    by code_simp
  from downloads_never_overwrite[OF h] names show ?thesis by (simp add: numeral_3_eq_3)
qed

text \<open>
  C7 as stated fails when a candidate is rejected: of two candidates that resolve to
  \<^verbatim>\<open>x.mp3\<close>, the first has 999 bytes and is deleted after writing, the second takes the
  same name, and the directory ends up with one file.
\<close>

theorem downloads_never_overwrite_counterexample:
  "map fst (out_dir (foldl (process_mp3 album_world ''https://site.example/album'') fresh_run
       [''https://site.example/d/x.mp3'', ''https://site.example/a/x.mp3''])) = [''x.mp3'']"
  by code_simp

section \<open>Properties of the extractor and the link discoverer\<close>

lemma distinct_list_of_set: "distinct (list_of_set w xs)"
  by (simp add: list_of_set_def)

lemma set_list_of_set: "set (list_of_set w xs) = set xs"
  by (simp add: list_of_set_def)

lemma distinct_get_linked_pages: "distinct (get_linked_pages w page_url base)"
  by (simp add: get_linked_pages_def get_linked_pages_try_def distinct_list_of_set
      split: option.split)

lemma collect_member:
  "collect f xs = Some ys \<Longrightarrow> y \<in> set ys \<Longrightarrow> \<exists>x\<in>set xs. \<exists>zs. f x = Some zs \<and> y \<in> set zs"
proof (induction xs arbitrary: ys)
  case Nil
  then show ?case by simp
next
  case (Cons x xs)
  then show ?case by (fastforce split: option.splits)
qed

text \<open>
  C6, as amended. Every URL that \<^verbatim>\<open>get_linked_pages\<close> returns parses to the same
  network location (host, with port and user information where present) as the base
  domain; the scheme is not compared, nor are path and query.
\<close>

theorem get_linked_pages_same_netloc:
  assumes "u \<in> set (get_linked_pages w page_url base_domain)"
  shows "\<exists>parsed base_parsed. urlparse w u = Some parsed \<and>
     urlparse w base_domain = Some base_parsed \<and> netloc parsed = netloc base_parsed"
proof -
  from assms obtain soup :: soup and base_parsed linked_pages where
    base: "urlparse w base_domain = Some base_parsed"
    and coll: "collect (scan_link w page_url base_parsed) (anchor_hrefs soup) = Some linked_pages"
    and u: "u \<in> set linked_pages"
    by (auto simp: get_linked_pages_def get_linked_pages_try_def set_list_of_set
        split: option.splits if_splits)
  from collect_member[OF coll u] obtain href zs where
    "scan_link w page_url base_parsed href = Some zs" "u \<in> set zs"
    by blast
  then obtain parsed where "urlparse w u = Some parsed" "netloc parsed = netloc base_parsed"
    by (auto simp: scan_link_def split: option.splits if_splits)
  with base show ?thesis by blast
qed

text \<open>
  The link from the seed page of the first example to \<^verbatim>\<open>track2\<close>.
\<close>

theorem get_linked_pages_same_netloc_witness:
  "\<exists>parsed base_parsed. urlparse album_world ''https://site.example/track2'' = Some parsed \<and>
     urlparse album_world ''https://site.example'' = Some base_parsed \<and>
     netloc parsed = netloc base_parsed"
proof -
  have "get_linked_pages album_world ''https://site.example/album'' ''https://site.example'' =
      [''https://site.example/track2'']"
    by code_simp
  then have "''https://site.example/track2'' \<in>
      set (get_linked_pages album_world ''https://site.example/album'' ''https://site.example'')"
    by simp
  then show ?thesis by (rule get_linked_pages_same_netloc)
qed

text \<open>
  C6 as stated fails on the scheme: with the base domain \<^verbatim>\<open>https://site.example\<close>, the
  link to \<^verbatim>\<open>http://site.example/x\<close> is returned (the link to the other host is not).
\<close>

theorem get_linked_pages_same_netloc_counterexample:
  "get_linked_pages album_world ''https://site.example/mixed'' ''https://site.example'' =
     [''http://site.example/x''] \<and>
   map_option scheme (urlparse album_world ''http://site.example/x'') = Some ''http'' \<and>
   map_option scheme (urlparse album_world ''https://site.example'') = Some ''https''"
  by code_simp

text \<open>
  C9. For every page URL, if the request for the page raises, or its status makes
  \<^verbatim>\<open>raise_for_status\<close> raise, or the parser raises, then \<^verbatim>\<open>find_real_mp3_on_page\<close> and
  \<^verbatim>\<open>get_linked_pages\<close> both return the empty list. Either function returns a list in
  every case, so no exception passes its boundary; the orchestrator goes on from such a
  linked page with its state unchanged but for the record that the page was searched.
\<close>

theorem page_errors_give_empty:
  assumes "requests_get w page_url page_headers = None \<or>
     (\<exists>response. requests_get w page_url page_headers = Some response \<and>
        (raises_for_status (status_code response) \<or> BeautifulSoup w (content response) = None))"
  shows "find_real_mp3_on_page w page_url base_domain = [] \<and>
         get_linked_pages w page_url base_domain = [] \<and>
         process_page w base_domain r page_url = r\<lparr>pages_checked := pages_checked r @ [page_url]\<rparr>"
  using assms
  by (auto simp: find_real_mp3_on_page_def find_real_mp3_on_page_try_def
      get_linked_pages_def get_linked_pages_try_def process_page_def)

text \<open>
  A page answered with status 404 and a page that cannot be reached.
\<close>

theorem page_errors_give_empty_witness:
  "find_real_mp3_on_page album_world ''https://site.example/gone.mp3'' ''https://site.example'' = [] \<and>
   get_linked_pages album_world ''https://site.example/gone.mp3'' ''https://site.example'' = [] \<and>
   find_real_mp3_on_page album_world ''https://site.example/unreachable'' ''https://site.example'' = [] \<and>
   get_linked_pages album_world ''https://site.example/unreachable'' ''https://site.example'' = []"
proof -
  have gone: "requests_get album_world ''https://site.example/gone.mp3'' page_headers =
      Some (audio_file 404 0)"
    by code_simp
  have "raises_for_status (status_code (audio_file 404 0))" by code_simp
  with gone have h1: "requests_get album_world ''https://site.example/gone.mp3'' page_headers = None \<or>
     (\<exists>response. requests_get album_world ''https://site.example/gone.mp3'' page_headers = Some response \<and>
        (raises_for_status (status_code response) \<or> BeautifulSoup album_world (content response) = None))"
    by blast
  have "requests_get album_world ''https://site.example/unreachable'' page_headers = None"
    by code_simp
  then have h2: "requests_get album_world ''https://site.example/unreachable'' page_headers = None \<or>
     (\<exists>response. requests_get album_world ''https://site.example/unreachable'' page_headers = Some response \<and>
        (raises_for_status (status_code response) \<or> BeautifulSoup album_world (content response) = None))"
    by (rule disjI1)
  from page_errors_give_empty[OF h1, where base_domain = "''https://site.example''"]
    page_errors_give_empty[OF h2, where base_domain = "''https://site.example''"]
  show ?thesis by simp
qed

section \<open>Properties of the Crawl Orchestrator\<close>

lemma process_mp3_seen: "calls_match_seen r \<Longrightarrow> calls_match_seen (process_mp3 w referer r mp3)"
  by (auto simp: calls_match_seen_def process_mp3_def Let_def)

lemma foldl_process_mp3_seen:
  "calls_match_seen r \<Longrightarrow> calls_match_seen (foldl (process_mp3 w referer) r urls)"
  by (induction urls arbitrary: r) (simp_all add: process_mp3_seen)

lemma process_page_seen: "calls_match_seen r \<Longrightarrow> calls_match_seen (process_page w base r page_url)"
  unfolding process_page_def
  by (rule foldl_process_mp3_seen) (simp add: calls_match_seen_def)

lemma foldl_process_page_seen:
  "calls_match_seen r \<Longrightarrow> calls_match_seen (foldl (process_page w base) r pages)"
  by (induction pages arbitrary: r) (simp_all add: process_page_seen)

text \<open>
  C2. In a run, whatever candidate URLs the seed page and the linked pages produce and
  however often they repeat, \<^verbatim>\<open>download_mp3\<close> is called at most once for each URL string:
  the URLs handed to it are pairwise distinct, and they are exactly the URLs in the set of
  seen URLs, into which each is put before the call (lines 268 to 270 and 294 to 296).
\<close>

theorem main_downloads_once:
  assumes "main w typed d = Some r"
  shows "distinct (download_calls r) \<and> set (download_calls r) = all_mp3s r"
proof -
  have start: "calls_match_seen \<lparr>all_mp3s = {}, downloaded_count = 0, out_dir = d,
      download_calls = [], pages_checked = []\<rparr>"
    by (simp add: calls_match_seen_def)
  from assms have "calls_match_seen r"
    by (auto simp: main_def Let_def split: option.splits
        intro!: foldl_process_page_seen foldl_process_mp3_seen start)
  then show ?thesis by (simp add: calls_match_seen_def)
qed

text \<open>
  The run on the first example: the first track is found on the seed page and again on
  \<^verbatim>\<open>track2\<close>, and is downloaded once.
\<close>

theorem main_downloads_once_witness:
  "\<exists>r. main album_world ''site.example/album'' [] = Some r \<and>
     download_calls r =
       [''https://site.example/stream/track1.mp3'', ''https://cdn.other.example/t2-real.mp3''] \<and>
     distinct (download_calls r) \<and> set (download_calls r) = all_mp3s r"
proof -
  have "map_option download_calls (main album_world ''site.example/album'' []) =
      Some [''https://site.example/stream/track1.mp3'', ''https://cdn.other.example/t2-real.mp3'']"
    by code_simp
  then obtain r where r: "main album_world ''site.example/album'' [] = Some r"
    and calls: "download_calls r =
      [''https://site.example/stream/track1.mp3'', ''https://cdn.other.example/t2-real.mp3'']"
    by auto
  from main_downloads_once[OF r] calls r show ?thesis by blast
qed

lemma process_mp3_pages: "pages_checked (process_mp3 w referer r mp3) = pages_checked r"
  by (simp add: process_mp3_def Let_def)

lemma foldl_process_mp3_pages:
  "pages_checked (foldl (process_mp3 w referer) r urls) = pages_checked r"
  by (induction urls arbitrary: r) (simp_all add: process_mp3_pages)

lemma process_page_pages:
  "pages_checked (process_page w base r page_url) = pages_checked r @ [page_url]"
  by (simp add: process_page_def foldl_process_mp3_pages)

lemma foldl_process_page_pages:
  "pages_checked (foldl (process_page w base) r pages) = pages_checked r @ pages"
  by (induction pages arbitrary: r) (simp_all add: process_page_pages)

lemma main_pages_checked:
  "urlparse w (start_url_of typed) = Some parsed \<Longrightarrow>
   map_option pages_checked (main w typed d) =
     Some (take 100 (get_linked_pages w (start_url_of typed) (scheme parsed @ ''://'' @ netloc parsed)))"
  by (simp add: main_def Let_def foldl_process_page_pages foldl_process_mp3_pages)

text \<open>
  C4, as amended. The linked pages that a run searches are exactly the first 100 entries
  of the list that \<^verbatim>\<open>get_linked_pages\<close> returns for the seed page, in the order of that
  list and each once: 100 pages when more than 100 links were found, all of them otherwise.
  The list is \<^verbatim>\<open>list(set(...))\<close> of the links found, so its order is the iteration order
  of a set and not the order of the anchors on the page.
\<close>

theorem main_page_cap:
  assumes "urlparse w (start_url_of typed) = Some parsed"
  shows "\<exists>r. main w typed d = Some r \<and>
     pages_checked r =
       take 100 (get_linked_pages w (start_url_of typed) (scheme parsed @ ''://'' @ netloc parsed)) \<and>
     length (pages_checked r) =
       min 100 (length (get_linked_pages w (start_url_of typed) (scheme parsed @ ''://'' @ netloc parsed))) \<and>
     distinct (pages_checked r)"
  using assms
  by (simp add: main_def Let_def foldl_process_page_pages foldl_process_mp3_pages
      distinct_get_linked_pages min.commute)

lemma collect_singletons: "(\<And>x. x \<in> set xs \<Longrightarrow> f x = Some [x]) \<Longrightarrow> collect f xs = Some xs"
  by (induction xs) simp_all

lemma insort_key_same: "\<forall>x\<in>set xs. g x = k \<Longrightarrow> sort_key g xs = xs"
proof (induction xs)
  case Nil
  show ?case by simp
next
  case (Cons x xs)
  then have "sort_key g xs = xs" by simp
  with Cons.prems show ?case by (cases xs) simp_all
qed

lemma foldr_insort_behind:
  "\<forall>x\<in>set xs. g y < g x \<Longrightarrow> foldr (insort_key g) xs [y] = y # sort_key g xs"
  by (induction xs) (auto simp: sort_key_def dest: leD)

lemma sort_key_last_first:
  assumes "g y = (0::nat)" "\<forall>x\<in>set xs. g x = 1"
  shows "sort_key g (xs @ [y]) = y # xs"
proof -
  have "sort_key g (xs @ [y]) = foldr (insort_key g) xs [y]"
    by (simp add: sort_key_def)
  also have "\<dots> = y # sort_key g xs"
    using assms by (intro foldr_insort_behind) simp
  also have "sort_key g xs = xs"
    using assms(2) by (rule insort_key_same)
  finally show ?thesis .
qed

lemma crowded_links_map: "crowded_links = map crowded_link [0..<101]"
  by (simp add: crowded_links_def crowded_link_def[abs_def])

lemma crowded_links_split: "crowded_links = map crowded_link [0..<100] @ [crowded_link 100]"
proof -
  have "[0..<101] = [0..<100] @ [100::nat]"
    using upt_Suc_append[of 0 100] by simp
  then show ?thesis
    by (simp add: crowded_links_def crowded_link_def[abs_def])
qed

lemma crowded_link_inj: "crowded_link i = crowded_link j \<Longrightarrow> i = j"
  by (simp add: crowded_link_def str_nat_inj)

lemma crowded_link_100: "crowded_link 100 = ''https://site.example/page100''"
  by code_simp

lemma distinct_crowded_links: "distinct crowded_links"
proof -
  have "inj_on crowded_link (set [0..<101])"
    by (rule inj_onI) (rule crowded_link_inj)
  then show ?thesis
    by (simp add: crowded_links_def crowded_link_def[abs_def] distinct_map)
qed

lemma crowded_scan_link:
  "scan_link crowded_world ''https://site.example/index''
     \<lparr>scheme = ''https'', netloc = ''site.example'', path = []\<rparr> (crowded_link i) =
   Some [crowded_link i]"
  by (simp add: scan_link_def crowded_world_def example_world_def example_urljoin_def
      example_urlparse_def crowded_link_def startswith_def Let_def)

lemma crowded_get_linked_pages:
  "get_linked_pages crowded_world ''https://site.example/index'' ''https://site.example'' =
   crowded_link 100 # map crowded_link [0..<100]"
proof -
  let ?base = "\<lparr>scheme = ''https'', netloc = ''site.example'', path = []\<rparr>"
  let ?rank = "\<lambda>u. if u = ''https://site.example/page100'' then 0 else (1::nat)"
  have page: "requests_get crowded_world ''https://site.example/index'' page_headers =
      Some (html_page crowded_html)"
    by (simp add: crowded_world_def example_world_def)
  have soup: "BeautifulSoup crowded_world crowded_html =
      Some \<lparr>audio_tags = [], anchor_hrefs = crowded_links\<rparr>"
    by (simp add: crowded_world_def example_world_def)
  have base: "urlparse crowded_world ''https://site.example'' = Some ?base"
    by (simp add: crowded_world_def example_world_def example_urlparse_def Let_def)
  have coll: "collect (scan_link crowded_world ''https://site.example/index'' ?base) crowded_links
      = Some crowded_links"
  proof (rule collect_singletons)
    fix x assume "x \<in> set crowded_links"
    then obtain i where "x = crowded_link i"
      by (auto simp: crowded_links_map)
    then show "scan_link crowded_world ''https://site.example/index'' ?base x = Some [x]"
      by (simp add: crowded_scan_link)
  qed
  have order: "set_order crowded_world crowded_links = ?rank"
    by (simp add: crowded_world_def example_world_def)
  have others: "\<forall>x\<in>set (map crowded_link [0..<100]). ?rank x = 1"
    by (auto simp: crowded_link_100[symmetric] dest: crowded_link_inj)
  have "list_of_set crowded_world crowded_links = sort_key ?rank crowded_links"
    by (simp add: list_of_set_def order distinct_remdups_id[OF distinct_crowded_links])
  also have "\<dots> = crowded_link 100 # map crowded_link [0..<100]"
    unfolding crowded_links_split
    by (rule sort_key_last_first) (use others in \<open>simp_all add: crowded_link_100\<close>)
  finally show ?thesis
    by (simp add: get_linked_pages_def get_linked_pages_try_def page soup base coll
        html_page_def raises_for_status_def)
qed

lemma crowded_start: "urlparse crowded_world (start_url_of ''site.example/index'') =
    Some \<lparr>scheme = ''https'', netloc = ''site.example'', path = ''/index''\<rparr>"
  by code_simp

lemma crowded_start_url: "start_url_of ''site.example/index'' = ''https://site.example/index''"
  by code_simp

text \<open>
  The run on the second example searches 100 of the 101 linked pages.
\<close>

theorem main_page_cap_witness:
  "\<exists>r. main crowded_world ''site.example/index'' [] = Some r \<and>
     pages_checked r =
       take 100 (get_linked_pages crowded_world ''https://site.example/index'' ''https://site.example'') \<and>
     length (pages_checked r) = 100 \<and> distinct (pages_checked r)"
  using main_page_cap[OF crowded_start, of "[]"]
  by (simp add: crowded_start_url crowded_get_linked_pages)

text \<open>
  C4 as stated fails on the order: in the second example the page found last, number
  100, is searched first, and page 99 is not searched at all; the first 100 links in the
  order of the anchors are the pages 0 to 99.
\<close>

theorem main_page_cap_counterexample:
  "map_option pages_checked (main crowded_world ''site.example/index'' []) =
     Some (crowded_link 100 # map crowded_link [0..<99]) \<and>
   map_option pages_checked (main crowded_world ''site.example/index'' []) \<noteq>
     Some (take 100 crowded_links)"
proof -
  have run: "map_option pages_checked (main crowded_world ''site.example/index'' []) =
     Some (crowded_link 100 # map crowded_link [0..<99])"
    using main_pages_checked[OF crowded_start, of "[]"]
    by (simp add: crowded_start_url crowded_get_linked_pages take_map)
  have "take 100 crowded_links = crowded_link 0 # map crowded_link [1..<100]"
    by (simp add: crowded_links_split upt_conv_Cons)
  moreover have "crowded_link 100 \<noteq> crowded_link 0"
    using crowded_link_inj[of 100 0] by auto
  ultimately have "crowded_link 100 # map crowded_link [0..<99] \<noteq> take 100 crowded_links"
    by simp
  with run show ?thesis by (simp only: option.inject simp_thms)
qed

end
